theory Spec2Isabelle
  imports Main "HOL-Library.FSet" "HOL-Library.Char_ord" "HOL-Library.List_Lexorder"
begin

section \<open>Errors and values\<close>

text \<open>
  The exceptions raised by \<^verbatim>\<open>binlog/connection.py\<close> and by the layers it calls.
  \<open>ValueError\<close> is the Python built-in raised by \<^verbatim>\<open>_index\<close> for a missing mandatory
  index; \<open>InvalidValue\<close> is a serializer refusing its input; \<open>TypeError\<close> is an
  operation applied to \<^verbatim>\<open>None\<close> where a registry is expected.
\<close>

datatype error = IntegrityError | ReaderDoesNotExist | ValueError | InvalidValue | TypeError

text \<open>Domain values of entry fields; \<open>PyNone\<close> is Python's \<^verbatim>\<open>None\<close>.\<close>

datatype pyval = PyNone | PyInt int | PyStr string

type_synonym fields = "(string \<times> pyval) list"

text \<open>
  Modelled from the spec: the model class \<^verbatim>\<open>binlog.model.Model\<close> is not part of the
  available code. An entry is a mapping from field names to values that carries the two
  attributes \<open>pk\<close> and \<open>saved\<close>; entries are created unsaved, and an unsaved entry has
  no primary key yet.
\<close>

record entry =
  payload :: fields
  pk :: "nat option"
  saved :: bool

definition new_entry :: "fields \<Rightarrow> entry" where
  "new_entry kw = \<lparr>payload = kw, pk = None, saved = False\<rparr>"

definition entry_get :: "entry \<Rightarrow> string \<Rightarrow> pyval" where
  "entry_get e name = (case map_of (payload e) name of None \<Rightarrow> PyNone | Some v \<Rightarrow> v)"

definition entry_copy :: "entry \<Rightarrow> fields" where
  "entry_copy e = payload e"

definition mark_as_saved :: "entry \<Rightarrow> nat \<Rightarrow> entry" where
  "mark_as_saved e k = e\<lparr>pk := Some k, saved := True\<rparr>"

section \<open>The ordered key/value store\<close>

text \<open>
  Modelled from the spec: the typed cursors of \<^verbatim>\<open>binlog.databases\<close> and the LMDB
  cursors below them are not part of the available code. A sub-database is the list of its
  key/value pairs in key order. \<open>db_put\<close> is the cursor's \<^verbatim>\<open>put\<close>: in append mode it
  only places a key greater than every stored key and otherwise reports failure; without
  \<^verbatim>\<open>overwrite\<close> it refuses a stored key; else it inserts or replaces.
\<close>

type_synonym ('k, 'v) db = "('k \<times> 'v) list"

definition db_get :: "'k \<Rightarrow> ('k, 'v) db \<Rightarrow> 'v option" where
  "db_get k d = map_of d k"

definition db_keys :: "('k, 'v) db \<Rightarrow> 'k list" where
  "db_keys d = map fst d"

fun db_insert :: "'k::linorder \<Rightarrow> 'v \<Rightarrow> ('k, 'v) db \<Rightarrow> ('k, 'v) db" where
  "db_insert k v [] = [(k, v)]"
| "db_insert k v ((k', v') # r) =
     (if k < k' then (k, v) # (k', v') # r
      else if k = k' then (k, v) # r
      else (k', v') # db_insert k v r)"

definition db_put ::
  "'k::linorder \<Rightarrow> 'v \<Rightarrow> bool \<Rightarrow> bool \<Rightarrow> ('k, 'v) db \<Rightarrow> bool \<times> ('k, 'v) db" where
  "db_put k v overwrite app d =
     (if app then
        (if list_all (\<lambda>k'. k' < k) (db_keys d) then (True, d @ [(k, v)]) else (False, d))
      else if \<not> overwrite \<and> db_get k d \<noteq> None then (False, d)
      else (True, db_insert k v d))"

definition db_pop :: "'k \<Rightarrow> ('k, 'v) db \<Rightarrow> 'v option \<times> ('k, 'v) db" where
  "db_pop k d = (db_get k d, filter (\<lambda>kv. fst kv \<noteq> k) d)"

text \<open>
  Modelled from the spec: the typed cursor of the entries sub-database, missing like the
  rest of \<^verbatim>\<open>binlog.databases\<close>, writes its key with the numeric serializer as an 8-byte
  unsigned integer, and a serializer refuses what it cannot encode with invalid-value. A
  primary key of \<open>2 ^ 64\<close> or more can therefore not be stored: a \<^verbatim>\<open>put\<close> of such a key
  raises. Every stored key is an 8-byte value, so a key that is not greater than every
  stored key fits; only a key that the append would accept can be out of range, and
  \<open>entries_put\<close> lists its cases in that order.
\<close>

definition key_fits :: "nat \<Rightarrow> bool" where
  "key_fits k \<longleftrightarrow> k < 2 ^ 64"

definition entries_put ::
  "nat \<Rightarrow> 'v \<Rightarrow> bool \<Rightarrow> bool \<Rightarrow> (nat, 'v) db \<Rightarrow> error + (bool \<times> (nat, 'v) db)" where
  "entries_put k v overwrite app d =
     (case db_put k v overwrite app d of
        (False, d1) \<Rightarrow> Inr (False, d1)
      | (True, d1) \<Rightarrow> (if key_fits k then Inr (True, d1) else Inl InvalidValue))"

text \<open>
  Modelled from the spec: the cursor's \<^verbatim>\<open>putmulti\<close>, missing like \<^verbatim>\<open>put\<close>, puts every
  pair of the iterable in turn with the same flags and returns how many pairs it read
  (consumed) and how many of them the store accepted (added); a key that cannot be
  written raises out of the whole call.
\<close>

fun entries_putmulti ::
  "(nat \<times> 'v) list \<Rightarrow> bool \<Rightarrow> bool \<Rightarrow> (nat, 'v) db \<Rightarrow> error + ((nat \<times> nat) \<times> (nat, 'v) db)" where
  "entries_putmulti [] overwrite app d = Inr ((0, 0), d)"
| "entries_putmulti ((k, v) # items) overwrite app d =
     (case entries_put k v overwrite app d of
        Inl err \<Rightarrow> Inl err
      | Inr (ok, d1) \<Rightarrow>
          (case entries_putmulti items overwrite app d1 of
             Inl err \<Rightarrow> Inl err
           | Inr ((consumed, added), d2) \<Rightarrow>
               Inr ((Suc consumed, (if ok then Suc added else added)), d2)))"

text \<open>
  Modelled from the spec: the index classes of \<^verbatim>\<open>binlog.index\<close> and their cursors are
  not part of the available code. An index sub-database is opened with duplicate keys allowed: it
  holds a set of (indexed value, primary key) pairs; \<^verbatim>\<open>put\<close> adds a pair and
  \<^verbatim>\<open>delete\<close> removes one. The descriptor of an index carries its \<^verbatim>\<open>mandatory\<close> flag.
  What \<^verbatim>\<open>delete\<close> does when it is handed \<^verbatim>\<open>None\<close> in place of a primary key is
  decided by code that is not available; it is the parameter \<open>delete_unsaved\<close> of the
  index. \<^verbatim>\<open>put\<close> is only ever called by \<^verbatim>\<open>create\<close>, after the primary key is set; for
  a missing key it is given the refusal of the numeric serializer.
\<close>

type_synonym index_db = "(pyval \<times> nat) set"

record index_desc =
  mandatory :: bool
  delete_unsaved :: "pyval \<Rightarrow> index_db \<Rightarrow> error + index_db"

definition idx_put :: "pyval \<Rightarrow> nat option \<Rightarrow> index_db \<Rightarrow> error + index_db" where
  "idx_put key val d =
     (case val of None \<Rightarrow> Inl InvalidValue | Some p \<Rightarrow> Inr (insert (key, p) d))"

definition idx_delete ::
  "index_desc \<Rightarrow> pyval \<Rightarrow> nat option \<Rightarrow> index_db \<Rightarrow> error + index_db" where
  "idx_delete ix key val d =
     (case val of None \<Rightarrow> delete_unsaved ix key d | Some p \<Rightarrow> Inr (d - {(key, p)}))"

section \<open>The model descriptor, the connection and the environment\<close>

text \<open>
  The model descriptor lists the declared indexes by name, in declaration order, and
  expands the \<^verbatim>\<open>index_db_format\<close> template into the name of an index sub-database.
\<close>

record model_desc =
  indexes :: "(string \<times> index_desc) list"
  index_db_format :: "string \<Rightarrow> string"

record connection =
  model :: model_desc
  path :: string
  kwargs :: "(string \<times> pyval) list"
  closed :: bool

text \<open>
  \<^verbatim>\<open>_gen_path\<close> ignores its argument and always joins the base path with
  \<^verbatim>\<open>data_env_directory\<close>, so \<^verbatim>\<open>data\<close> and \<^verbatim>\<open>readers\<close> open the same environment: one
  record holds the \<^verbatim>\<open>config\<close>, \<^verbatim>\<open>entries\<close>, index and \<^verbatim>\<open>checkpoints\<close> sub-databases.
\<close>

record env =
  config :: "(string, nat) db"
  entries :: "(nat, fields) db"
  index_dbs :: "string \<Rightarrow> index_db"
  checkpoints :: "(string, nat fset) db"

type_synonym 'a result = "(error + 'a) \<times> env"

definition get_index_name :: "connection \<Rightarrow> string \<Rightarrow> string" where
  "get_index_name c name = index_db_format (model c) name"

text \<open>
  \<^verbatim>\<open>data\<close> and \<^verbatim>\<open>readers\<close> are context managers that yield inside
  \<^verbatim>\<open>with env.begin(write=write, buffers=True) as txn\<close>. The body of the caller's
  \<^verbatim>\<open>with\<close> block runs inside that one transaction, which is committed when the block
  is left normally (a \<^verbatim>\<open>return\<close> included) and aborted when an exception leaves it: an
  error leaves the stored environment as it was when the scope was entered. The body is
  a function from the environment to an error or a result with the new environment.
\<close>

definition data :: "connection \<Rightarrow> (env \<Rightarrow> error + ('a \<times> env)) \<Rightarrow> env \<Rightarrow> 'a result" where
  "data c body st =
     (case body st of Inl e \<Rightarrow> (Inl e, st) | Inr (r, st') \<Rightarrow> (Inr r, st'))"

definition readers :: "connection \<Rightarrow> (env \<Rightarrow> error + ('a \<times> env)) \<Rightarrow> env \<Rightarrow> 'a result" where
  "readers c body st =
     (case body st of Inl e \<Rightarrow> (Inl e, st) | Inr (r, st') \<Rightarrow> (Inr r, st'))"

section \<open>Entry and index manager\<close>

definition get_next_event_idx :: "env \<Rightarrow> nat" where
  "get_next_event_idx st =
     (case db_get ''next_event_id'' (config st) of None \<Rightarrow> 0 | Some v \<Rightarrow> v)"

definition update_next_event_idx :: "env \<Rightarrow> nat \<Rightarrow> env" where
  "update_next_event_idx st v =
     st\<lparr>config := snd (db_put ''next_event_id'' v True False (config st))\<rparr>"

fun index_loop ::
  "connection \<Rightarrow> entry \<Rightarrow> (string \<times> index_desc) list \<Rightarrow> env \<Rightarrow> error + env" where
  "index_loop c e [] st = Inr st"
| "index_loop c e ((index_name, ix) # rest) st =
     (let db_name = get_index_name c index_name;
          key = entry_get e index_name;
          val = pk e
      in if mandatory ix \<and> key = PyNone then Inl ValueError
         else if key \<noteq> PyNone then
           (case idx_put key val (index_dbs st db_name) of
              Inl err \<Rightarrow> Inl err
            | Inr d \<Rightarrow> index_loop c e rest (st\<lparr>index_dbs := (index_dbs st)(db_name := d)\<rparr>))
         else index_loop c e rest st)"

definition index :: "connection \<Rightarrow> env \<Rightarrow> entry \<Rightarrow> error + env" where
  "index c st e = index_loop c e (indexes (model c)) st"

fun unindex_loop ::
  "connection \<Rightarrow> entry \<Rightarrow> (string \<times> index_desc) list \<Rightarrow> env \<Rightarrow> error + env" where
  "unindex_loop c e [] st = Inr st"
| "unindex_loop c e ((index_name, ix) # rest) st =
     (let db_name = get_index_name c index_name;
          key = entry_get e index_name
      in if key \<noteq> PyNone then
           (case idx_delete ix key (pk e) (index_dbs st db_name) of
              Inl err \<Rightarrow> Inl err
            | Inr d \<Rightarrow> unindex_loop c e rest (st\<lparr>index_dbs := (index_dbs st)(db_name := d)\<rparr>))
         else unindex_loop c e rest st)"

definition unindex :: "connection \<Rightarrow> env \<Rightarrow> entry \<Rightarrow> error + env" where
  "unindex c st e = unindex_loop c e (indexes (model c)) st"

definition create_body :: "connection \<Rightarrow> fields \<Rightarrow> env \<Rightarrow> error + (entry \<times> env)" where
  "create_body c kw st =
     (let next_idx = get_next_event_idx st;
          e = new_entry kw
      in case entries_put next_idx (entry_copy e) False True (entries st) of
           Inl err \<Rightarrow> Inl err
         | Inr (success, ents) \<Rightarrow>
             (let st1 = st\<lparr>entries := ents\<rparr>;
                  st2 = update_next_event_idx st1 (next_idx + 1)
              in if success then
                   (let e' = e\<lparr>pk := Some next_idx, saved := True\<rparr>
                    in case index c st2 e' of Inl err \<Rightarrow> Inl err | Inr st3 \<Rightarrow> Inr (e', st3))
                 else Inl IntegrityError))"

definition create :: "connection \<Rightarrow> fields \<Rightarrow> env \<Rightarrow> entry result" where
  "create c kw st = data c (create_body c kw) st"

text \<open>
  \<^verbatim>\<open>get_raw\<close> numbers the entries from \<open>next_idx\<close> (Python's \<^verbatim>\<open>enumerate\<close>), marks
  each one as saved under its number and yields the pair to store. \<open>bulk_marked\<close> is
  what the caller's entry objects look like once the generator has been consumed.
\<close>

fun get_raw :: "nat \<Rightarrow> entry list \<Rightarrow> (nat \<times> fields) list" where
  "get_raw k [] = []"
| "get_raw k (e # es) = (k, entry_copy (mark_as_saved e k)) # get_raw (Suc k) es"

fun bulk_marked :: "nat \<Rightarrow> entry list \<Rightarrow> entry list" where
  "bulk_marked k [] = []"
| "bulk_marked k (e # es) = mark_as_saved e k # bulk_marked (Suc k) es"

definition bulk_create_body :: "connection \<Rightarrow> entry list \<Rightarrow> env \<Rightarrow> error + (nat \<times> env)" where
  "bulk_create_body c es st =
     (let next_idx = get_next_event_idx st
      in case entries_putmulti (get_raw next_idx es) False True (entries st) of
           Inl err \<Rightarrow> Inl err
         | Inr ((consumed, added), ents) \<Rightarrow>
             (let st1 = st\<lparr>entries := ents\<rparr>;
                  st2 = update_next_event_idx st1 (next_idx + consumed)
              in if consumed \<noteq> added then Inl IntegrityError else Inr (added, st2)))"

definition bulk_create :: "connection \<Rightarrow> entry list \<Rightarrow> env \<Rightarrow> nat result" where
  "bulk_create c es st = data c (bulk_create_body c es) st"

section \<open>Reader and checkpoint manager\<close>

text \<open>
  Modelled from the spec: the class \<^verbatim>\<open>binlog.reader.Reader\<close> is not part of the available code.
  A reader is bound to its connection, its name (none for an anonymous reader) and the
  registry loaded for it; \<open>delta\<close> holds the acknowledgements recorded since. \<open>is_acked\<close>
  is membership of the primary key in the registry. Leaving the reader's scope saves the
  delta when acknowledgements were recorded and does nothing otherwise.
\<close>

record reader_obj =
  rconnection :: connection
  rname :: "string option"
  registry :: "nat fset option"
  delta :: "nat fset"

definition Reader :: "connection \<Rightarrow> string option \<Rightarrow> nat fset option \<Rightarrow> reader_obj" where
  "Reader c name reg = \<lparr>rconnection = c, rname = name, registry = reg, delta = {||}\<rparr>"

definition pk_in :: "nat option \<Rightarrow> nat fset \<Rightarrow> bool" where
  "pk_in k reg = (case k of None \<Rightarrow> False | Some p \<Rightarrow> p |\<in>| reg)"

definition is_acked :: "reader_obj \<Rightarrow> entry \<Rightarrow> bool" where
  "is_acked r e = (case registry r of None \<Rightarrow> False | Some reg \<Rightarrow> pk_in (pk e) reg)"

definition reader :: "connection \<Rightarrow> string option \<Rightarrow> env \<Rightarrow> reader_obj result" where
  "reader c name st =
     (case name of
        Some n \<Rightarrow>
          (case readers c (\<lambda>s. case db_get n (checkpoints s) of
                                  None \<Rightarrow> Inl ReaderDoesNotExist
                                | Some reg \<Rightarrow> Inr (reg, s)) st of
             (Inl err, st1) \<Rightarrow> (Inl err, st1)
           | (Inr reg, st1) \<Rightarrow> (Inr (Reader c name (Some reg)), st1))
      | None \<Rightarrow> (Inr (Reader c name None), st))"

definition register_reader :: "connection \<Rightarrow> string \<Rightarrow> env \<Rightarrow> bool result" where
  "register_reader c name st =
     readers c (\<lambda>s. case db_put name {||} False False (checkpoints s) of
                       (ok, cps) \<Rightarrow> Inr (ok, s\<lparr>checkpoints := cps\<rparr>)) st"

definition unregister_reader :: "connection \<Rightarrow> string \<Rightarrow> env \<Rightarrow> bool result" where
  "unregister_reader c name st =
     readers c (\<lambda>s. case db_pop name (checkpoints s) of
                       (None, cps) \<Rightarrow> Inl ReaderDoesNotExist
                     | (Some reg, cps) \<Rightarrow> Inr (True, s\<lparr>checkpoints := cps\<rparr>)) st"

definition save_registry :: "connection \<Rightarrow> string \<Rightarrow> nat fset \<Rightarrow> env \<Rightarrow> bool result" where
  "save_registry c name new_registry st =
     readers c (\<lambda>s.
        let stored_registry = (case db_get name (checkpoints s) of None \<Rightarrow> {||} | Some reg \<Rightarrow> reg)
        in case db_put name (stored_registry |\<union>| new_registry) True False (checkpoints s) of
             (ok, cps) \<Rightarrow> Inr (ok, s\<lparr>checkpoints := cps\<rparr>)) st"

definition list_readers :: "connection \<Rightarrow> env \<Rightarrow> string list result" where
  "list_readers c st = readers c (\<lambda>s. Inr (db_keys (checkpoints s), s)) st"

definition reader_exit :: "reader_obj \<Rightarrow> env \<Rightarrow> env" where
  "reader_exit r st =
     (if delta r = {||} then st
      else (case rname r of None \<Rightarrow> st
            | Some n \<Rightarrow> snd (save_registry (rconnection r) n (delta r) st)))"

section \<open>Reclamation\<close>

definition remove_body :: "connection \<Rightarrow> entry \<Rightarrow> env \<Rightarrow> error + (bool \<times> env)" where
  "remove_body c e st =
     (case pk e of
        None \<Rightarrow> Inl InvalidValue
      | Some p \<Rightarrow>
          (case db_pop p (entries st) of (v, ents) \<Rightarrow>
             (let success = (v \<noteq> None); st1 = st\<lparr>entries := ents\<rparr>
              in if success then
                   (case unindex c st1 e of Inl err \<Rightarrow> Inl err | Inr st2 \<Rightarrow> Inr (success, st2))
                 else Inr (success, st1))))"

text \<open>
  The \<^verbatim>\<open>for\<close> loop of \<^verbatim>\<open>remove\<close> over the reader names; its \<^verbatim>\<open>else\<close> branch, reached
  when the names are exhausted, is the deletion itself.
\<close>

fun remove_loop :: "connection \<Rightarrow> entry \<Rightarrow> string list \<Rightarrow> env \<Rightarrow> bool result" where
  "remove_loop c e [] st = data c (remove_body c e) st"
| "remove_loop c e (name # names) st =
     (case reader c (Some name) st of
        (Inl err, st1) \<Rightarrow> (Inl err, st1)
      | (Inr r, st1) \<Rightarrow>
          (if \<not> is_acked r e then (Inr False, reader_exit r st1)
           else remove_loop c e names (reader_exit r st1)))"

definition remove :: "connection \<Rightarrow> entry \<Rightarrow> env \<Rightarrow> bool result" where
  "remove c e st =
     (case list_readers c st of
        (Inl err, st1) \<Rightarrow> (Inl err, st1)
      | (Inr names, st1) \<Rightarrow>
          (if names = [] then (Inl ReaderDoesNotExist, st1)
           else remove_loop c e names st1))"

text \<open>The list comprehension of \<^verbatim>\<open>purge\<close>: the registry of the reader of every name.\<close>

fun purge_registries :: "connection \<Rightarrow> string list \<Rightarrow> env \<Rightarrow> (nat fset option list) result" where
  "purge_registries c [] st = (Inr [], st)"
| "purge_registries c (name # names) st =
     (case reader c (Some name) st of
        (Inl err, st1) \<Rightarrow> (Inl err, st1)
      | (Inr r, st1) \<Rightarrow>
          (case purge_registries c names st1 of
             (Inl err, st2) \<Rightarrow> (Inl err, st2)
           | (Inr regs, st2) \<Rightarrow> (Inr (registry r # regs), st2)))"

text \<open>
  \<^verbatim>\<open>reduce(op.and_, registries)\<close> on a non-empty list, followed by the iteration over the
  result: both need registries, so a \<^verbatim>\<open>None\<close> among them is a type error.
\<close>

fun reduce_and :: "nat fset option list \<Rightarrow> error + nat fset" where
  "reduce_and [] = Inl TypeError"
| "reduce_and (None # regs) = Inl TypeError"
| "reduce_and (Some a # regs) =
     (if list_all (\<lambda>r. r \<noteq> None) regs
      then Inr (foldl (\<lambda>acc r. case r of None \<Rightarrow> acc | Some b \<Rightarrow> acc |\<inter>| b) a regs)
      else Inl TypeError)"

fun purge_loop ::
  "connection \<Rightarrow> nat list \<Rightarrow> nat \<Rightarrow> nat \<Rightarrow> env \<Rightarrow> error + ((nat \<times> nat) \<times> env)" where
  "purge_loop c [] removed errors st = Inr ((removed, errors), st)"
| "purge_loop c (p # ps) removed errors st =
     (case db_pop p (entries st) of (v, ents) \<Rightarrow>
        (let st1 = st\<lparr>entries := ents\<rparr>
         in case v of
              Some val \<Rightarrow>
                (case unindex c st1 (new_entry val) of
                   Inl err \<Rightarrow> Inl err
                 | Inr st2 \<Rightarrow> purge_loop c ps (removed + 1) errors st2)
            | None \<Rightarrow> purge_loop c ps removed 0 st1))"

definition purge :: "connection \<Rightarrow> env \<Rightarrow> (nat \<times> nat) result" where
  "purge c st =
     (case list_readers c st of
        (Inl err, st1) \<Rightarrow> (Inl err, st1)
      | (Inr names, st1) \<Rightarrow>
          (case purge_registries c names st1 of
             (Inl err, st2) \<Rightarrow> (Inl err, st2)
           | (Inr registries, st2) \<Rightarrow>
               (if registries \<noteq> [] then
                  (case reduce_and registries of
                     Inl err \<Rightarrow> (Inl err, st2)
                   | Inr common_acked \<Rightarrow>
                       data c (purge_loop c (sorted_list_of_fset common_acked) 0 0) st2)
                else (Inr (0, 0), st2))))"

section \<open>Closing a connection\<close>

definition close :: "connection \<Rightarrow> connection" where
  "close c = c\<lparr>closed := True\<rparr>"

section \<open>Segmented log writer\<close>

datatype werror = UnboundLocalError | DBError | InUse | NotFound

text \<open>
  The writer of \<^verbatim>\<open>binlog/writer.py\<close> together with the environment directory it works
  on. \<open>logindex\<close> is the record-number database of segment names, \<open>files\<close> maps the name
  of each segment database in the directory to its records (a record's number is its
  position, from 1) and \<open>current_log\<close> is the open handle, identified by the name of the
  segment it is open on. \<open>pointers\<close> are the progress pointers (segment number, record
  number) that registered readers keep in the same directory. The constant
  \<^verbatim>\<open>LOG_PREFIX\<close> of \<^verbatim>\<open>binlog.constants\<close> is not part of the available code and is the parameter
  \<open>log_prefix\<close>. Records are stored pickled; the model stores the payload itself.
\<close>

record 'a writer =
  log_prefix :: string
  logindex :: "(nat, string) db"
  files :: "string \<Rightarrow> 'a list option"
  pointers :: "(string \<times> nat \<times> nat) list"
  max_log_events :: int
  current_log :: "string option"
  next_will_create_log :: bool

definition digit_char :: "nat \<Rightarrow> char" where
  "digit_char d = ''0123456789'' ! d"

fun str_nat :: "nat \<Rightarrow> string" where
  "str_nat n = (if n < 10 then [digit_char n] else str_nat (n div 10) @ [digit_char (n mod 10)])"

declare str_nat.simps [simp del]

text \<open>The last pair of a record-number database, as \<^verbatim>\<open>cursor.last()\<close> returns it.\<close>

definition cursor_last :: "('k, 'v) db \<Rightarrow> ('k \<times> 'v) option" where
  "cursor_last d = (if d = [] then None else Some (last d))"

text \<open>\<^verbatim>\<open>DB.append\<close> on a record-number database: the new record follows the last one.\<close>

definition recno_append :: "'v \<Rightarrow> (nat, 'v) db \<Rightarrow> (nat, 'v) db" where
  "recno_append v d =
     (case cursor_last d of None \<Rightarrow> [(1, v)] | Some (idx, _) \<Rightarrow> d @ [(idx + 1, v)])"

text \<open>Opening a segment with \<^verbatim>\<open>DB_CREATE\<close> creates it empty when it does not exist.\<close>

definition log_open :: "string \<Rightarrow> (string \<Rightarrow> 'a list option) \<Rightarrow> (string \<Rightarrow> 'a list option)" where
  "log_open name fs = (case fs name of None \<Rightarrow> fs(name \<mapsto> []) | Some recs \<Rightarrow> fs)"

definition set_current_log :: "'a writer \<Rightarrow> werror + 'a writer" where
  "set_current_log w =
     (let last_seg = cursor_last (logindex w);
          name = (case last_seg of None \<Rightarrow> log_prefix w @ ''.1'' | Some (idx, v) \<Rightarrow> v);
          w1 = (case last_seg of
                  None \<Rightarrow> w\<lparr>logindex := recno_append name (logindex w)\<rparr>
                | Some (idx, v) \<Rightarrow> w);
          w2 = w1\<lparr>files := log_open name (files w1)\<rparr>;
          recs = (case files w2 name of None \<Rightarrow> [] | Some rs \<Rightarrow> rs)
      in if recs \<noteq> [] \<and> int (length recs) \<ge> max_log_events w2 then
           (case last_seg of
              None \<Rightarrow> Inl UnboundLocalError
            | Some (idx, v) \<Rightarrow>
                (let name' = log_prefix w2 @ ''.'' @ str_nat (idx + 1);
                     w3 = w2\<lparr>logindex := recno_append name' (logindex w2)\<rparr>;
                     w4 = w3\<lparr>files := log_open name' (files w3)\<rparr>
                 in Inr (w4\<lparr>current_log := Some name'\<rparr>)))
         else Inr (w2\<lparr>current_log := Some name\<rparr>))"

definition append_log :: "'a writer \<Rightarrow> 'a \<Rightarrow> werror + 'a writer" where
  "append_log w x =
     (let w1 = (if next_will_create_log w
                then w\<lparr>next_will_create_log := False, current_log := None\<rparr>
                else w)
      in case (if current_log w1 = None then set_current_log w1 else Inr w1) of
           Inl err \<Rightarrow> Inl err
         | Inr w2 \<Rightarrow>
             (case current_log w2 of
                None \<Rightarrow> Inl DBError
              | Some name \<Rightarrow>
                  (case files w2 name of
                     None \<Rightarrow> Inl DBError
                   | Some recs \<Rightarrow>
                       (let idx = length recs + 1
                        in Inr (w2\<lparr>files := (files w2)(name \<mapsto> recs @ [x]),
                                   next_will_create_log := (int idx \<ge> max_log_events w2)\<rparr>)))))"

text \<open>A run of \<^verbatim>\<open>append\<close> calls, stopping at the first one that raises.\<close>

fun appends :: "'a writer \<Rightarrow> 'a list \<Rightarrow> werror + 'a writer" where
  "appends w [] = Inr w"
| "appends w (x # xs) = (case append_log w x of Inl err \<Rightarrow> Inl err | Inr w1 \<Rightarrow> appends w1 xs)"

text \<open>A writer on a fresh directory, as \<^verbatim>\<open>__init__\<close> leaves it.\<close>

definition Writer :: "string \<Rightarrow> int \<Rightarrow> 'a writer" where
  "Writer prefix m =
     \<lparr>log_prefix = prefix, logindex = [], files = Map.empty, pointers = [],
      max_log_events = m, current_log = None, next_will_create_log = False\<rparr>"

text \<open>
  Modelled from the spec: \<^verbatim>\<open>Writer.delete\<close> is inherited from the class
  \<^verbatim>\<open>binlog.binlog.Binlog\<close>, which is not part of the available code. Deleting a segment that the
  logindex does not hold fails with not-found; deleting the segment the writer is open
  on, or one that a registered reader's progress pointer lies in, fails with in-use;
  otherwise the segment file and its logindex entry are removed.
\<close>

definition delete :: "'a writer \<Rightarrow> nat \<Rightarrow> werror + 'a writer" where
  "delete w n =
     (case db_get n (logindex w) of
        None \<Rightarrow> Inl NotFound
      | Some name \<Rightarrow>
          (if current_log w = Some name \<or> list_ex (\<lambda>(r, seg, idx). seg = n) (pointers w)
           then Inl InUse
           else Inr (w\<lparr>logindex := snd (db_pop n (logindex w)),
                       files := (files w)(name := None)\<rparr>)))"

section \<open>Notions used to state the properties\<close>

text \<open>The registry stored for a reader name, empty when the name is absent.\<close>

definition stored_registry :: "string \<Rightarrow> env \<Rightarrow> nat fset" where
  "stored_registry name st = (case db_get name (checkpoints st) of None \<Rightarrow> {||} | Some reg \<Rightarrow> reg)"

text \<open>The primary keys that the stored registry of every registered reader contains.\<close>

definition common_acked :: "env \<Rightarrow> nat set" where
  "common_acked st =
     {p. \<forall>n\<in>set (db_keys (checkpoints st)). \<exists>reg. db_get n (checkpoints st) = Some reg \<and> p |\<in>| reg}"


section \<open>Example inputs\<close>

definition plain_model :: model_desc where
  "plain_model = \<lparr>indexes = [], index_db_format = (\<lambda>name. ''idx_'' @ name)\<rparr>"

text \<open>An optional index whose cursor refuses to delete without a primary key.\<close>

definition name_index :: index_desc where
  "name_index = \<lparr>mandatory = False, delete_unsaved = (\<lambda>key d. Inl InvalidValue)\<rparr>"

definition named_model :: model_desc where
  "named_model =
     \<lparr>indexes = [(''name'', name_index)], index_db_format = (\<lambda>name. ''idx_'' @ name)\<rparr>"

definition plain_conn :: connection where
  "plain_conn = \<lparr>model = plain_model, path = ''/tmp/db'', kwargs = [], closed = False\<rparr>"

definition named_conn :: connection where
  "named_conn = \<lparr>model = named_model, path = ''/tmp/db'', kwargs = [], closed = False\<rparr>"

text \<open>
  The same connection for an arbitrary behaviour \<open>f\<close> of the index cursor when it is
  asked to delete without a primary key, and for the behaviour that finds no pair to
  delete and leaves the index as it is.
\<close>

definition indexed_conn :: "(pyval \<Rightarrow> index_db \<Rightarrow> error + index_db) \<Rightarrow> connection" where
  "indexed_conn f =
     \<lparr>model = \<lparr>indexes = [(''name'', \<lparr>mandatory = False, delete_unsaved = f\<rparr>)],
               index_db_format = (\<lambda>name. ''idx_'' @ name)\<rparr>,
      path = ''/tmp/db'', kwargs = [], closed = False\<rparr>"

definition lax_conn :: connection where
  "lax_conn = indexed_conn (\<lambda>key d. Inr d)"

definition empty_env :: env where
  "empty_env = \<lparr>config = [], entries = [], index_dbs = (\<lambda>name. {}), checkpoints = []\<rparr>"

definition test_data :: fields where
  "test_data = [(''test'', PyStr ''data'')]"

definition saved_entry :: "fields \<Rightarrow> nat \<Rightarrow> entry" where
  "saved_entry kw k = \<lparr>payload = kw, pk = Some k, saved = True\<rparr>"

text \<open>An environment whose counter (absent, so 0) lags behind the stored key 5.\<close>

definition stale_env :: env where
  "stale_env = empty_env\<lparr>entries := [(5, test_data)]\<rparr>"

text \<open>An environment whose counter has reached the end of the key range.\<close>

definition full_env :: env where
  "full_env = empty_env\<lparr>config := [(''next_event_id'', 2 ^ 64)]\<rparr>"

text \<open>Two entries and two readers: both acknowledged key 0, only \<open>r1\<close> acknowledged key 1.\<close>

definition two_readers_env :: env where
  "two_readers_env =
     \<lparr>config = [(''next_event_id'', 2)], entries = [(0, test_data), (1, test_data)],
      index_dbs = (\<lambda>name. {}), checkpoints = [(''r1'', {|0, 1|}), (''r2'', {|0|})]\<rparr>"

text \<open>One reader that acknowledged key 0, whose entry is no longer stored.\<close>

definition acked_gone_env :: env where
  "acked_gone_env = empty_env\<lparr>config := [(''next_event_id'', 1)], checkpoints := [(''r1'', {|0|})]\<rparr>"

text \<open>One indexed entry at key 0, acknowledged by the only reader.\<close>

definition indexed_env :: env where
  "indexed_env =
     \<lparr>config = [(''next_event_id'', 1)], entries = [(0, [(''name'', PyStr ''a'')])],
      index_dbs = (\<lambda>name. if name = ''idx_name'' then {(PyStr ''a'', 0)} else {}),
      checkpoints = [(''r1'', {|0|})]\<rparr>"

text \<open>
  A directory with three one-record segments, the writer open on the third and a reader
  whose pointer is in the second.
\<close>

definition three_segments :: "nat writer" where
  "three_segments =
     \<lparr>log_prefix = ''log'', logindex = [(1, ''log.1''), (2, ''log.2''), (3, ''log.3'')],
      files = [''log.1'' \<mapsto> [10], ''log.2'' \<mapsto> [20], ''log.3'' \<mapsto> [30]],
      pointers = [(''test'', 2, 1)],
      max_log_events = 1, current_log = Some ''log.3'', next_will_create_log = True\<rparr>"

section \<open>Facts about the store\<close>

lemma db_get_insert: "db_get k (db_insert k' v d) = (if k = k' then Some v else db_get k d)"
  by (induction d) (auto simp: db_get_def)

lemma db_insert_idem: "db_insert k v (db_insert k v d) = db_insert k v d"
  by (induction d) auto

lemma db_get_keys: "k \<in> set (db_keys d) \<Longrightarrow> \<exists>v. db_get k d = Some v"
  by (induction d) (auto simp: db_get_def db_keys_def)

lemma db_get_pop: "db_get k (snd (db_pop k' d)) = (if k = k' then None else db_get k d)"
  by (induction d) (auto simp: db_get_def db_pop_def)

lemma db_get_filter_keys:
  "db_get p (filter (\<lambda>kv. fst kv \<notin> S) d) = (if p \<in> S then None else db_get p d)"
  by (induction d) (auto simp: db_get_def)

lemma get_next_update: "get_next_event_idx (update_next_event_idx st v) = v"
  by (simp add: get_next_event_idx_def update_next_event_idx_def db_put_def db_get_insert)

section \<open>Creating entries\<close>

lemma index_loop_frame:
  "index_loop c e xs st = Inr st' \<Longrightarrow>
     config st' = config st \<and> entries st' = entries st \<and> checkpoints st' = checkpoints st"
  by (induction c e xs st rule: index_loop.induct)
     (auto simp: Let_def split: if_splits sum.splits)

text \<open>
  C3. Whenever \<open>create\<close> returns an entry, the entry is saved, its primary key is the
  value of \<open>next_event_id\<close> read at the start of the call (0 when the key is absent), and
  the \<open>next_event_id\<close> stored afterwards is that key plus one.
\<close>

theorem create_success:
  assumes "create c kw st = (Inr e, st')"
  shows "saved e \<and> pk e = Some (get_next_event_idx st) \<and>
         get_next_event_idx st' = get_next_event_idx st + 1"
proof -
  from assms obtain ents st3 where
    e: "e = (new_entry kw)\<lparr>pk := Some (get_next_event_idx st), saved := True\<rparr>"
    and idx: "index c (update_next_event_idx (st\<lparr>entries := ents\<rparr>) (get_next_event_idx st + 1)) e = Inr st3"
    and st': "st' = st3"
    by (auto simp: create_def data_def create_body_def Let_def split: sum.splits prod.splits if_splits)
  from idx have "config st3 = config (update_next_event_idx (st\<lparr>entries := ents\<rparr>) (get_next_event_idx st + 1))"
    by (simp add: index_def index_loop_frame)
  then have "get_next_event_idx st3 = get_next_event_idx st + 1"
    using get_next_update[of "st\<lparr>entries := ents\<rparr>" "get_next_event_idx st + 1"]
    by (simp add: get_next_event_idx_def)
  with e st' show ?thesis by simp
qed

theorem create_success_witness:
  "\<exists>e st'. create plain_conn test_data empty_env = (Inr e, st') \<and> saved e \<and> pk e = Some 0 \<and>
     get_next_event_idx st' = 1 \<and> db_get 0 (entries st') = Some test_data"
proof -
  have run: "create plain_conn test_data empty_env =
      (Inr (saved_entry test_data 0),
       empty_env\<lparr>config := [(''next_event_id'', 1)], entries := [(0, test_data)]\<rparr>)"
    by (simp add: create_def data_def create_body_def Let_def get_next_event_idx_def db_get_def
        empty_env_def entries_put_def key_fits_def db_put_def db_keys_def new_entry_def
        entry_copy_def update_next_event_idx_def index_def plain_conn_def plain_model_def
        saved_entry_def)
  have n0: "get_next_event_idx empty_env = 0"
    by (simp add: get_next_event_idx_def db_get_def empty_env_def)
  from create_success[OF run] n0 run show ?thesis
    by (simp add: db_get_def)
qed

text \<open>
  C1, as the code has it. When the key to append is not greater than every stored key,
  the append-mode put of \<open>create\<close> is refused and \<open>create\<close> raises the integrity error.
  The counter is advanced inside the transaction only: the error aborts the transaction,
  so the stored environment, \<open>next_event_id\<close> included, is what it was before the call,
  and the next \<open>create\<close> tries the same primary key again.
\<close>

theorem create_put_refused:
  assumes "\<not> list_all (\<lambda>k. k < get_next_event_idx st) (db_keys (entries st))"
  shows "\<not> fst (db_put (get_next_event_idx st) (entry_copy (new_entry kw)) False True (entries st)) \<and>
         create c kw st = (Inl IntegrityError, st) \<and>
         get_next_event_idx (snd (create c kw st)) = get_next_event_idx st"
  using assms
  by (auto simp: create_def data_def create_body_def Let_def entries_put_def db_put_def
      split: prod.splits)

lemma stale_keys:
  "\<not> list_all (\<lambda>k. k < get_next_event_idx stale_env) (db_keys (entries stale_env))"
  by (simp add: get_next_event_idx_def db_get_def stale_env_def empty_env_def db_keys_def)

theorem create_put_refused_witness:
  "create plain_conn test_data stale_env = (Inl IntegrityError, stale_env) \<and>
   get_next_event_idx (snd (create plain_conn test_data stale_env)) = get_next_event_idx stale_env"
  using create_put_refused[OF stale_keys] by simp

text \<open>
  The claim as stated fails: on \<open>stale_env\<close> the put is refused, \<open>create\<close> raises the
  integrity error, and the stored counter has not moved.
\<close>

theorem create_counter_counterexample:
  "fst (create plain_conn test_data stale_env) = Inl IntegrityError \<and>
   get_next_event_idx (snd (create plain_conn test_data stale_env)) \<noteq> get_next_event_idx stale_env + 1"
  by (simp add: create_def data_def create_body_def Let_def get_next_event_idx_def db_get_def
        stale_env_def empty_env_def entries_put_def db_put_def db_keys_def)

text \<open>
  At the end of the key range the key to append does not fit in 8 bytes: \<open>create\<close>
  raises and nothing is stored.
\<close>

lemma create_key_overflow:
  "create plain_conn test_data full_env = (Inl InvalidValue, full_env)"
  by (simp add: create_def data_def create_body_def Let_def get_next_event_idx_def db_get_def
        full_env_def empty_env_def entries_put_def key_fits_def db_put_def db_keys_def)

section \<open>Bulk creation\<close>

lemma entries_put_error: "entries_put k v ov ap d = Inl err \<Longrightarrow> err = InvalidValue"
  by (auto simp: entries_put_def split: prod.splits bool.splits if_splits)

lemma entries_putmulti_error:
  "entries_putmulti items ov ap d = Inl err \<Longrightarrow> err = InvalidValue"
proof (induction items arbitrary: d)
  case Nil
  then show ?case by simp
next
  case (Cons kv items)
  obtain k v where kv: "kv = (k, v)" by (cases kv)
  show ?case
  proof (cases "entries_put k v ov ap d")
    case (Inl e1)
    with Cons.prems kv entries_put_error[OF Inl] show ?thesis by simp
  next
    case (Inr r)
    obtain ok d1 where r: "r = (ok, d1)" by (cases r)
    with Cons.prems kv Inr have "entries_putmulti items ov ap d1 = Inl err"
      by (auto split: sum.splits prod.splits)
    then show ?thesis by (rule Cons.IH)
  qed
qed

lemma entries_putmulti_counts:
  "entries_putmulti items ov ap d = Inr ((consumed, added), d') \<Longrightarrow>
     consumed = length items \<and> added \<le> consumed"
proof (induction items arbitrary: d consumed added d')
  case Nil
  then show ?case by simp
next
  case (Cons kv items)
  obtain k v where kv: "kv = (k, v)" by (cases kv)
  from Cons.prems kv obtain ok d1 c1 a1 d2 where
    put: "entries_put k v ov ap d = Inr (ok, d1)"
    and rest: "entries_putmulti items ov ap d1 = Inr ((c1, a1), d2)"
    and eqs: "consumed = Suc c1" "added = (if ok then Suc a1 else a1)"
    by (auto split: sum.splits prod.splits)
  from Cons.IH[OF rest] have "c1 = length items" "a1 \<le> c1" by simp_all
  with eqs show ?case by auto
qed

lemma entries_putmulti_fresh:
  assumes "list_all (\<lambda>k. k < n) (db_keys d)" "n + length es \<le> 2 ^ 64"
  shows "entries_putmulti (get_raw n es) False True d =
           Inr ((length es, length es), d @ get_raw n es)"
  using assms
proof (induction es arbitrary: n d)
  case Nil
  then show ?case by simp
next
  case (Cons e es)
  from Cons.prems have fresh: "list_all (\<lambda>k. k < Suc n) (db_keys (d @ [(n, entry_copy (mark_as_saved e n))]))"
    by (auto simp: db_keys_def list_all_iff)
  from Cons.prems(2) have fits: "key_fits n" and rest: "Suc n + length es \<le> 2 ^ 64"
    by (simp_all add: key_fits_def)
  from Cons.IH[OF fresh rest] Cons.prems(1) fits show ?case
    by (simp add: entries_put_def db_put_def)
qed

lemma entries_putmulti_overflow:
  assumes "list_all (\<lambda>k. k < n) (db_keys d)" "2 ^ 64 < n + length es" "es \<noteq> []"
  shows "entries_putmulti (get_raw n es) False True d = Inl InvalidValue"
  using assms
proof (induction es arbitrary: n d)
  case Nil
  then show ?case by simp
next
  case (Cons e es)
  show ?case
  proof (cases "key_fits n")
    case False
    with Cons.prems(1) show ?thesis
      by (simp add: entries_put_def db_put_def)
  next
    case True
    from Cons.prems(1) have fresh:
      "list_all (\<lambda>k. k < Suc n) (db_keys (d @ [(n, entry_copy (mark_as_saved e n))]))"
      by (auto simp: db_keys_def list_all_iff)
    from Cons.prems(2) have rest: "2 ^ 64 < Suc n + length es" by simp
    from True rest have ne: "es \<noteq> []" by (auto simp: key_fits_def)
    from Cons.IH[OF fresh rest ne] Cons.prems(1) True show ?thesis
      by (simp add: entries_put_def db_put_def)
  qed
qed

lemma entries_putmulti_stale:
  assumes "\<not> list_all (\<lambda>k. k < n) (db_keys d)" "es \<noteq> []"
    "entries_putmulti (get_raw n es) False True d = Inr ((consumed, added), d')"
  shows "consumed \<noteq> added"
proof -
  from assms(2) obtain e es' where es: "es = e # es'" by (cases es) auto
  from assms(1) have put: "entries_put n (entry_copy (mark_as_saved e n)) False True d = Inr (False, d)"
    by (simp add: entries_put_def db_put_def)
  with assms(3) es obtain c1 a1 where
    rest: "entries_putmulti (get_raw (Suc n) es') False True d = Inr ((c1, a1), d')"
    and eqs: "consumed = Suc c1" "added = a1"
    by (auto split: sum.splits prod.splits)
  from entries_putmulti_counts[OF rest] have "a1 \<le> c1" by simp
  with eqs show ?thesis by simp
qed

lemma entries_putmulti_in_range:
  assumes "n + length es \<le> 2 ^ 64"
  shows "\<exists>r. entries_putmulti (get_raw n es) False True d = Inr r"
  using assms
proof (induction es arbitrary: n d)
  case Nil
  then show ?case by simp
next
  case (Cons e es)
  from Cons.prems have fits: "key_fits n" and rest: "Suc n + length es \<le> 2 ^ 64"
    by (simp_all add: key_fits_def)
  obtain ok d1 where put: "db_put n (entry_copy (mark_as_saved e n)) False True d = (ok, d1)"
    by (cases "db_put n (entry_copy (mark_as_saved e n)) False True d")
  from Cons.IH[OF rest, of d1] obtain r where "entries_putmulti (get_raw (Suc n) es) False True d1 = Inr r"
    by blast
  with put fits show ?case
    by (cases r; cases ok) (auto simp: entries_put_def split: prod.splits)
qed

lemma bulk_marked_pks:
  "map pk (bulk_marked n es) = map Some [n..<n + length es]"
  by (induction es arbitrary: n) (auto simp: mark_as_saved_def upt_rec)

lemma db_keys_get_raw: "db_keys (get_raw n es) = [n..<n + length es]"
  by (induction es arbitrary: n) (auto simp: db_keys_def upt_rec)

lemma bulk_create_success:
  assumes "es = [] \<or> (list_all (\<lambda>k. k < get_next_event_idx st) (db_keys (entries st)) \<and>
             get_next_event_idx st + length es \<le> 2 ^ 64)"
  shows "\<exists>st'. bulk_create c es st = (Inr (length es), st') \<and>
         get_next_event_idx st' = get_next_event_idx st + length es \<and>
         entries st' = entries st @ get_raw (get_next_event_idx st) es \<and>
         index_dbs st' = index_dbs st \<and> checkpoints st' = checkpoints st"
proof (cases "es = []")
  case True
  then show ?thesis
    by (simp add: bulk_create_def data_def bulk_create_body_def Let_def get_next_update)
       (simp add: update_next_event_idx_def)
next
  case False
  with assms have "list_all (\<lambda>k. k < get_next_event_idx st) (db_keys (entries st))"
    "get_next_event_idx st + length es \<le> 2 ^ 64" by simp_all
  from entries_putmulti_fresh[OF this] show ?thesis
    by (simp add: bulk_create_def data_def bulk_create_body_def Let_def get_next_update)
       (simp add: update_next_event_idx_def)
qed

lemma bulk_create_stale:
  assumes "\<not> list_all (\<lambda>k. k < get_next_event_idx st) (db_keys (entries st))" "es \<noteq> []"
  shows "(bulk_create c es st = (Inl IntegrityError, st) \<or>
          bulk_create c es st = (Inl InvalidValue, st)) \<and>
         (get_next_event_idx st + length es \<le> 2 ^ 64 \<longrightarrow>
            bulk_create c es st = (Inl IntegrityError, st))"
proof (cases "entries_putmulti (get_raw (get_next_event_idx st) es) False True (entries st)")
  case (Inl err)
  from entries_putmulti_error[OF Inl] Inl have r: "bulk_create c es st = (Inl InvalidValue, st)"
    by (simp add: bulk_create_def data_def bulk_create_body_def Let_def)
  from entries_putmulti_in_range[of "get_next_event_idx st" es "entries st"] Inl
  have "\<not> get_next_event_idx st + length es \<le> 2 ^ 64" by auto
  with r show ?thesis by simp
next
  case (Inr r)
  obtain consumed added d' where r: "r = ((consumed, added), d')" by (cases r) auto
  from entries_putmulti_stale[OF assms] Inr r have "consumed \<noteq> added" by simp
  with Inr r show ?thesis
    by (simp add: bulk_create_def data_def bulk_create_body_def Let_def)
qed

text \<open>
  C8, as the code has it. \<open>bulk_create\<close> numbers the entries consecutively from the
  current \<open>next_event_id\<close> and puts them with one append-mode multi-put. When every
  stored key is below the counter and the new keys fit in 8 bytes (or there is nothing
  to insert) every pair is accepted: the call returns the number of entries, the stored
  counter has grown by that number and the entries are stored under the consecutive
  keys. In every other case the call raises and the transaction is aborted, so the
  stored environment, the counter included, is unchanged: when a new key does not fit,
  the serializer's error; when a stored key is not below the counter, the consumed and
  accepted counts differ and the error is the integrity error (as long as the new keys
  fit).
\<close>

theorem bulk_create_result:
  "map pk (bulk_marked (get_next_event_idx st) es) =
      map Some [get_next_event_idx st..<get_next_event_idx st + length es] \<and>
   db_keys (get_raw (get_next_event_idx st) es) =
      [get_next_event_idx st..<get_next_event_idx st + length es] \<and>
   (if es = [] \<or> (list_all (\<lambda>k. k < get_next_event_idx st) (db_keys (entries st)) \<and>
                    get_next_event_idx st + length es \<le> 2 ^ 64) then
      (\<exists>st'. bulk_create c es st = (Inr (length es), st') \<and>
         get_next_event_idx st' = get_next_event_idx st + length es \<and>
         entries st' = entries st @ get_raw (get_next_event_idx st) es \<and>
         index_dbs st' = index_dbs st \<and> checkpoints st' = checkpoints st)
    else if list_all (\<lambda>k. k < get_next_event_idx st) (db_keys (entries st)) then
      bulk_create c es st = (Inl InvalidValue, st)
    else if get_next_event_idx st + length es \<le> 2 ^ 64 then
      bulk_create c es st = (Inl IntegrityError, st)
    else (bulk_create c es st = (Inl IntegrityError, st) \<or>
          bulk_create c es st = (Inl InvalidValue, st)))"
proof -
  let ?n = "get_next_event_idx st"
  let ?fresh = "list_all (\<lambda>k. k < ?n) (db_keys (entries st))"
  have third: "(if es = [] \<or> (?fresh \<and> ?n + length es \<le> 2 ^ 64) then
      (\<exists>st'. bulk_create c es st = (Inr (length es), st') \<and>
         get_next_event_idx st' = ?n + length es \<and>
         entries st' = entries st @ get_raw ?n es \<and>
         index_dbs st' = index_dbs st \<and> checkpoints st' = checkpoints st)
    else if ?fresh then bulk_create c es st = (Inl InvalidValue, st)
    else if ?n + length es \<le> 2 ^ 64 then bulk_create c es st = (Inl IntegrityError, st)
    else (bulk_create c es st = (Inl IntegrityError, st) \<or>
          bulk_create c es st = (Inl InvalidValue, st)))"
  proof (cases "es = [] \<or> (?fresh \<and> ?n + length es \<le> 2 ^ 64)")
    case True
    from bulk_create_success[OF True, of c] True show ?thesis by simp
  next
    case False
    then have ne: "es \<noteq> []" by simp
    show ?thesis
    proof (cases ?fresh)
      case True
      with False have "2 ^ 64 < ?n + length es" by simp
      from entries_putmulti_overflow[OF True this ne] have
        "bulk_create c es st = (Inl InvalidValue, st)"
        by (simp add: bulk_create_def data_def bulk_create_body_def Let_def)
      with False True show ?thesis by simp
    next
      case stale: False
      from bulk_create_stale[OF stale ne, of c] False stale show ?thesis by auto
    qed
  qed
  with bulk_marked_pks[of ?n es] db_keys_get_raw[of ?n es] show ?thesis by blast
qed

text \<open>
  Three entries into an empty log: \<open>bulk_create\<close> returns 3, \<open>next_event_id\<close> becomes 3
  and the entries are stored under the keys 0, 1 and 2.
\<close>

theorem bulk_create_result_witness:
  "\<exists>st'. bulk_create plain_conn [new_entry test_data, new_entry test_data, new_entry test_data] empty_env
            = (Inr 3, st') \<and>
         get_next_event_idx st' = 3 \<and>
         entries st' = [(0, test_data), (1, test_data), (2, test_data)]"
proof -
  have n0: "get_next_event_idx empty_env = 0"
    by (simp add: get_next_event_idx_def db_get_def empty_env_def)
  have e0: "entries empty_env = []"
    by (simp add: empty_env_def)
  let ?es = "[new_entry test_data, new_entry test_data, new_entry test_data]"
  from bulk_create_result[of empty_env ?es plain_conn]
  have "\<exists>st'. bulk_create plain_conn ?es empty_env = (Inr (length ?es), st') \<and>
         get_next_event_idx st' = get_next_event_idx empty_env + length ?es \<and>
         entries st' = entries empty_env @ get_raw (get_next_event_idx empty_env) ?es"
    by (auto simp: n0 e0 db_keys_def)
  then show ?thesis
    by (auto simp: n0 e0 entry_copy_def mark_as_saved_def new_entry_def
          numeral_3_eq_3 numeral_2_eq_2)
qed

text \<open>
  The claim as stated fails: on \<open>stale_env\<close> the one pair consumed is not accepted, the
  call raises the integrity error and the stored counter has not grown by one.
\<close>

theorem bulk_create_counter_counterexample:
  "fst (bulk_create plain_conn [new_entry test_data] stale_env) = Inl IntegrityError \<and>
   get_next_event_idx (snd (bulk_create plain_conn [new_entry test_data] stale_env))
     \<noteq> get_next_event_idx stale_env + 1"
  by (simp add: bulk_create_def data_def bulk_create_body_def Let_def get_next_event_idx_def
        db_get_def stale_env_def empty_env_def entries_put_def db_put_def db_keys_def)

text \<open>
  At the end of the key range the one key to append does not fit: \<open>bulk_create\<close> raises
  the serializer's error and nothing is stored.
\<close>

lemma bulk_create_key_overflow:
  "bulk_create plain_conn [new_entry test_data] full_env = (Inl InvalidValue, full_env)"
  by (simp add: bulk_create_def data_def bulk_create_body_def Let_def get_next_event_idx_def
        db_get_def full_env_def empty_env_def entries_put_def key_fits_def db_put_def db_keys_def)


section \<open>Saving a registry\<close>

lemma save_registry_eq:
  "save_registry c name r st =
     (Inr True, st\<lparr>checkpoints := db_insert name (stored_registry name st |\<union>| r) (checkpoints st)\<rparr>)"
  by (simp add: save_registry_def readers_def db_put_def stored_registry_def Let_def)

text \<open>
  C7. \<open>save_registry name r\<close> stores, under \<open>name\<close>, the union of the registry stored
  before (empty when absent) and \<open>r\<close>, and leaves the registries of other names alone.
  Saving the same registry a second time changes nothing, and what was stored before is
  contained in what is stored afterwards.
\<close>

theorem save_registry_union:
  "fst (save_registry c name r st) = Inr True \<and>
   db_get name (checkpoints (snd (save_registry c name r st))) = Some (stored_registry name st |\<union>| r) \<and>
   stored_registry name (snd (save_registry c name r st)) = stored_registry name st |\<union>| r \<and>
   (\<forall>other. other \<noteq> name \<longrightarrow>
      db_get other (checkpoints (snd (save_registry c name r st))) = db_get other (checkpoints st)) \<and>
   snd (save_registry c name r (snd (save_registry c name r st))) = snd (save_registry c name r st) \<and>
   stored_registry name st |\<subseteq>| stored_registry name (snd (save_registry c name r st))"
  by (simp add: save_registry_eq stored_registry_def db_get_insert db_insert_idem)

theorem save_registry_union_witness:
  "db_get ''r2'' (checkpoints (snd (save_registry plain_conn ''r2'' {|1|} two_readers_env)))
     = Some ({|0|} |\<union>| {|1|}) \<and>
   db_get ''r1'' (checkpoints (snd (save_registry plain_conn ''r2'' {|1|} two_readers_env)))
     = Some {|0, 1|} \<and>
   snd (save_registry plain_conn ''r2'' {|1|} (snd (save_registry plain_conn ''r2'' {|1|} two_readers_env)))
     = snd (save_registry plain_conn ''r2'' {|1|} two_readers_env)"
proof -
  have s: "stored_registry ''r2'' two_readers_env = {|0|}"
    by (simp add: stored_registry_def db_get_def two_readers_env_def)
  have o: "db_get ''r1'' (checkpoints two_readers_env) = Some {|0, 1|}"
    by (simp add: db_get_def two_readers_env_def)
  from save_registry_union[of plain_conn "''r2''" "{|1|}" two_readers_env] s o
  show ?thesis by simp
qed

section \<open>Readers\<close>

lemma list_readers_eq: "list_readers c st = (Inr (db_keys (checkpoints st)), st)"
  by (simp add: list_readers_def readers_def)

lemma reader_named:
  "db_get n (checkpoints st) = Some reg \<Longrightarrow>
     reader c (Some n) st = (Inr (Reader c (Some n) (Some reg)), st)"
  by (simp add: reader_def readers_def)

lemma reader_exit_fresh: "reader_exit (Reader c name reg) st = st"
  by (simp add: reader_exit_def Reader_def)

lemma is_acked_Reader: "is_acked (Reader c name (Some reg)) e = pk_in (pk e) reg"
  by (simp add: is_acked_def Reader_def)

section \<open>Removing an entry\<close>

lemma remove_loop_unacked:
  assumes "set names \<subseteq> set (db_keys (checkpoints st))"
    and "\<exists>n\<in>set names. \<exists>reg. db_get n (checkpoints st) = Some reg \<and> \<not> pk_in (pk e) reg"
  shows "remove_loop c e names st = (Inr False, st)"
  using assms
proof (induction names)
  case Nil
  then show ?case by simp
next
  case (Cons n names)
  from Cons.prems(1) obtain reg where reg: "db_get n (checkpoints st) = Some reg"
    using db_get_keys[of n "checkpoints st"] by auto
  show ?case
  proof (cases "pk_in (pk e) reg")
    case True
    with Cons.prems reg
    have "\<exists>n\<in>set names. \<exists>reg. db_get n (checkpoints st) = Some reg \<and> \<not> pk_in (pk e) reg"
      by auto
    with Cons True reg show ?thesis
      by (simp add: reader_named reader_exit_fresh is_acked_Reader)
  next
    case False
    with reg show ?thesis
      by (simp add: reader_named reader_exit_fresh is_acked_Reader)
  qed
qed

lemma remove_loop_acked:
  assumes "set names \<subseteq> set (db_keys (checkpoints st))"
    and "\<forall>n\<in>set names. \<exists>reg. db_get n (checkpoints st) = Some reg \<and> pk_in (pk e) reg"
  shows "remove_loop c e names st = data c (remove_body c e) st"
  using assms
proof (induction names)
  case Nil
  then show ?case by simp
next
  case (Cons n names)
  from Cons.prems(2) obtain reg where "db_get n (checkpoints st) = Some reg" "pk_in (pk e) reg"
    by auto
  with Cons show ?case
    by (simp add: reader_named reader_exit_fresh is_acked_Reader)
qed

lemma unindex_loop_frame:
  assumes "unindex_loop c e xs st = Inr st'"
  shows "config st' = config st \<and> entries st' = entries st \<and> checkpoints st' = checkpoints st"
  using assms
  by (induction c e xs st rule: unindex_loop.induct)
     (auto simp: Let_def split: if_splits sum.splits)

lemma unindex_loop_shrinks:
  assumes "unindex_loop c e xs st = Inr st'" "pk e = Some p"
  shows "index_dbs st' d \<subseteq> index_dbs st d"
  using assms
proof (induction c e xs st rule: unindex_loop.induct)
  case (1 c e st)
  then show ?case by simp
next
  case (2 c e index_name ix rest st)
  then show ?case
    by (fastforce simp: Let_def idx_delete_def split: if_splits sum.splits option.splits)
qed

lemma unindex_loop_removes:
  assumes "unindex_loop c e xs st = Inr st'" "pk e = Some p"
    "(name, m) \<in> set xs" "entry_get e name \<noteq> PyNone"
  shows "(entry_get e name, p) \<notin> index_dbs st' (get_index_name c name)"
  using assms
proof (induction c e xs st rule: unindex_loop.induct)
  case (1 c e st)
  then show ?case by simp
next
  case (2 c e index_name ix rest st)
  show ?case
  proof (cases "(name, m) \<in> set rest")
    case True
    with 2 show ?thesis
      by (auto simp: Let_def idx_delete_def split: if_splits sum.splits)
  next
    case False
    with "2.prems" have eq: "index_name = name" by simp
    define st1 where "st1 = st\<lparr>index_dbs := (index_dbs st)(get_index_name c name :=
        index_dbs st (get_index_name c name) - {(entry_get e name, p)})\<rparr>"
    from "2.prems" eq have run: "unindex_loop c e rest st1 = Inr st'"
      by (simp add: Let_def idx_delete_def st1_def)
    have "(entry_get e name, p) \<notin> index_dbs st1 (get_index_name c name)"
      by (simp add: st1_def)
    with unindex_loop_shrinks[OF run "2.prems"(2), of "get_index_name c name"] show ?thesis by blast
  qed
qed

lemma unindex_loop_total:
  "pk e = Some p \<Longrightarrow> \<exists>st'. unindex_loop c e xs st = Inr st'"
  by (induction c e xs st rule: unindex_loop.induct) (auto simp: Let_def idx_delete_def)

text \<open>
  C5. With no registered reader \<open>remove\<close> raises reader-not-found. When the stored
  registry of some registered reader does not contain the entry's primary key, \<open>remove\<close>
  returns false and the stored environment (entries and every index sub-database
  included) is what it was.
\<close>

theorem remove_refused:
  "(db_keys (checkpoints st) = [] \<longrightarrow> remove c e st = (Inl ReaderDoesNotExist, st)) \<and>
   ((\<exists>n\<in>set (db_keys (checkpoints st)). \<exists>reg.
        db_get n (checkpoints st) = Some reg \<and> \<not> pk_in (pk e) reg) \<longrightarrow>
      remove c e st = (Inr False, st))"
proof (intro conjI impI)
  assume "db_keys (checkpoints st) = []"
  then show "remove c e st = (Inl ReaderDoesNotExist, st)"
    by (simp add: remove_def list_readers_eq)
next
  assume h: "\<exists>n\<in>set (db_keys (checkpoints st)). \<exists>reg.
        db_get n (checkpoints st) = Some reg \<and> \<not> pk_in (pk e) reg"
  then have "db_keys (checkpoints st) \<noteq> []" by auto
  with h show "remove c e st = (Inr False, st)"
    using remove_loop_unacked[of "db_keys (checkpoints st)" st e c]
    by (simp add: remove_def list_readers_eq)
qed

text \<open>
  No reader at all on \<open>empty_env\<close>; on \<open>two_readers_env\<close> reader \<open>r2\<close> has not
  acknowledged key 1.
\<close>

theorem remove_refused_witness:
  "remove named_conn (saved_entry test_data 0) empty_env = (Inl ReaderDoesNotExist, empty_env) \<and>
   remove named_conn (saved_entry test_data 1) two_readers_env = (Inr False, two_readers_env)"
proof -
  have a: "db_keys (checkpoints empty_env) = []"
    by (simp add: db_keys_def empty_env_def)
  have b: "\<exists>n\<in>set (db_keys (checkpoints two_readers_env)). \<exists>reg.
        db_get n (checkpoints two_readers_env) = Some reg \<and> \<not> pk_in (pk (saved_entry test_data 1)) reg"
    by (simp add: db_keys_def db_get_def two_readers_env_def pk_in_def saved_entry_def)
  from remove_refused[of empty_env named_conn "saved_entry test_data 0"] a
    remove_refused[of two_readers_env named_conn "saved_entry test_data 1"] b
  show ?thesis by blast
qed

text \<open>
  C6, as the code has it. When there is at least one registered reader and the stored
  registry of every registered reader contains the entry's primary key: if the key is
  stored in entries, \<open>remove\<close> deletes it, removes the pair (value, key) from the
  sub-database of every declared index for which the entry has a value, and returns
  true, touching neither the other entries nor config nor the checkpoints; if the key is
  not stored, \<open>remove\<close> returns false and changes nothing.
\<close>

theorem remove_acked:
  assumes "db_keys (checkpoints st) \<noteq> []"
    and "\<forall>n\<in>set (db_keys (checkpoints st)). \<exists>reg.
           db_get n (checkpoints st) = Some reg \<and> pk_in (pk e) reg"
  shows "\<exists>p. pk e = Some p \<and>
           (if db_get p (entries st) = None then remove c e st = (Inr False, st)
            else (\<exists>st'. remove c e st = (Inr True, st') \<and>
                   db_get p (entries st') = None \<and>
                   (\<forall>k. k \<noteq> p \<longrightarrow> db_get k (entries st') = db_get k (entries st)) \<and>
                   (\<forall>(name, m)\<in>set (indexes (model c)). entry_get e name \<noteq> PyNone \<longrightarrow>
                      (entry_get e name, p) \<notin> index_dbs st' (get_index_name c name)) \<and>
                   config st' = config st \<and> checkpoints st' = checkpoints st))"
proof -
  from assms obtain n where "n \<in> set (db_keys (checkpoints st))"
    by (cases "db_keys (checkpoints st)") auto
  with assms(2) obtain reg where "pk_in (pk e) reg" by blast
  then obtain p where p: "pk e = Some p" by (auto simp: pk_in_def split: option.splits)
  have run: "remove c e st = data c (remove_body c e) st"
    using assms remove_loop_acked[of "db_keys (checkpoints st)" st e c]
    by (simp add: remove_def list_readers_eq)
  show ?thesis
  proof (cases "db_get p (entries st) = None")
    case True
    have "st\<lparr>entries := filter (\<lambda>kv. fst kv \<noteq> p) (entries st)\<rparr> = st"
    proof -
      from True have "\<forall>kv\<in>set (entries st). fst kv \<noteq> p"
        by (auto simp: db_get_def map_of_eq_None_iff)
      then have "filter (\<lambda>kv. fst kv \<noteq> p) (entries st) = entries st"
        by (simp add: filter_id_conv)
      then show ?thesis by simp
    qed
    with True p run show ?thesis
      by (simp add: data_def remove_body_def db_pop_def Let_def)
  next
    case False
    define st1 where "st1 = st\<lparr>entries := snd (db_pop p (entries st))\<rparr>"
    from unindex_loop_total[OF p, of c "indexes (model c)" st1]
    obtain st' where u: "unindex_loop c e (indexes (model c)) st1 = Inr st'" by blast
    from False p u run have r: "remove c e st = (Inr True, st')"
      by (auto simp: data_def remove_body_def db_pop_def Let_def unindex_def st1_def)
    from unindex_loop_frame[OF u] have fr: "config st' = config st" "entries st' = entries st1"
      "checkpoints st' = checkpoints st" by (simp_all add: st1_def)
    have e1: "db_get p (entries st') = None"
      using fr by (simp add: st1_def db_get_pop)
    have e2: "\<forall>k. k \<noteq> p \<longrightarrow> db_get k (entries st') = db_get k (entries st)"
      using fr by (simp add: st1_def db_get_pop)
    have e3: "\<forall>(name, m)\<in>set (indexes (model c)). entry_get e name \<noteq> PyNone \<longrightarrow>
                      (entry_get e name, p) \<notin> index_dbs st' (get_index_name c name)"
      using unindex_loop_removes[OF u p] by auto
    from False p r e1 e2 e3 fr show ?thesis by simp
  qed
qed

text \<open>The indexed entry at key 0 of \<open>indexed_env\<close>, acknowledged by its only reader.\<close>

theorem remove_acked_witness:
  "\<exists>st'. remove named_conn (saved_entry [(''name'', PyStr ''a'')] 0) indexed_env = (Inr True, st') \<and>
         db_get 0 (entries st') = None \<and>
         (PyStr ''a'', 0) \<notin> index_dbs st' ''idx_name''"
proof -
  let ?e = "saved_entry [(''name'', PyStr ''a'')] 0"
  have a: "db_keys (checkpoints indexed_env) \<noteq> []"
    by (simp add: db_keys_def indexed_env_def)
  have b: "\<forall>n\<in>set (db_keys (checkpoints indexed_env)). \<exists>reg.
           db_get n (checkpoints indexed_env) = Some reg \<and> pk_in (pk ?e) reg"
    by (simp add: db_keys_def db_get_def indexed_env_def pk_in_def saved_entry_def)
  have c: "pk ?e = Some 0" "db_get 0 (entries indexed_env) \<noteq> None"
    "entry_get ?e ''name'' = PyStr ''a''" "indexes (model named_conn) = [(''name'', name_index)]"
    "get_index_name named_conn ''name'' = ''idx_name''"
    by (simp_all add: saved_entry_def db_get_def indexed_env_def entry_get_def named_conn_def
        named_model_def get_index_name_def)
  from remove_acked[OF a b, of named_conn] c show ?thesis
    by auto
qed

text \<open>
  The claim as stated fails: on \<open>acked_gone_env\<close> the only reader has acknowledged key
  0, but no entry is stored under it, and \<open>remove\<close> returns false.
\<close>

theorem remove_absent_counterexample:
  "db_keys (checkpoints acked_gone_env) = [''r1''] \<and>
   list_all (\<lambda>(n, reg). pk_in (pk (saved_entry test_data 0)) reg) (checkpoints acked_gone_env) \<and>
   remove plain_conn (saved_entry test_data 0) acked_gone_env = (Inr False, acked_gone_env)"
  by (simp add: remove_def list_readers_def readers_def reader_def db_keys_def db_get_def
        acked_gone_env_def empty_env_def Reader_def is_acked_def pk_in_def saved_entry_def
        reader_exit_def data_def remove_body_def db_pop_def Let_def)

section \<open>Purging\<close>

lemma purge_registries_eq:
  assumes "set names \<subseteq> set (db_keys (checkpoints st))"
  shows "purge_registries c names st = (Inr (map (\<lambda>n. db_get n (checkpoints st)) names), st)"
  using assms
proof (induction names)
  case Nil
  then show ?case by simp
next
  case (Cons n names)
  then obtain reg where "db_get n (checkpoints st) = Some reg"
    using db_get_keys[of n "checkpoints st"] by auto
  with Cons show ?case
    by (simp add: reader_named Reader_def)
qed

lemma foldl_inter_member:
  "p |\<in>| foldl (\<lambda>acc r. case r of None \<Rightarrow> acc | Some b \<Rightarrow> acc |\<inter>| b) a regs \<longleftrightarrow>
     p |\<in>| a \<and> (\<forall>b. Some b \<in> set regs \<longrightarrow> p |\<in>| b)"
  by (induction regs arbitrary: a) (auto split: option.splits)

lemma reduce_and_member:
  assumes "reduce_and regs = Inr common"
  shows "p |\<in>| common \<longleftrightarrow> (\<forall>r\<in>set regs. \<exists>b. r = Some b \<and> p |\<in>| b)"
proof (cases regs)
  case Nil
  with assms show ?thesis by simp
next
  case (Cons r rest)
  show ?thesis
  proof (cases r)
    case None
    with Cons assms show ?thesis by simp
  next
    case (Some a)
    with Cons assms have all: "list_all (\<lambda>r. r \<noteq> None) rest"
      and c: "common = foldl (\<lambda>acc r. case r of None \<Rightarrow> acc | Some b \<Rightarrow> acc |\<inter>| b) a rest"
      by (auto split: if_splits)
    from all have "\<forall>r\<in>set rest. \<exists>b. r = Some b" by (auto simp: list_all_iff)
    with Cons Some c show ?thesis
      by (auto simp: foldl_inter_member)
  qed
qed

lemma reduce_and_total:
  assumes "regs \<noteq> []" "\<forall>r\<in>set regs. r \<noteq> None"
  shows "\<exists>common. reduce_and regs = Inr common"
  using assms by (cases regs; cases "hd regs") (auto simp: list_all_iff)

lemma distinct_sorted_list_of_fset: "distinct (sorted_list_of_fset S)"
  by (simp add: sorted_list_of_fset.rep_eq)

lemma purge_loop_effect:
  assumes "purge_loop c ps removed errors st = Inr ((removed', errors'), st')" "distinct ps"
  shows "removed' = removed + card {p \<in> set ps. db_get p (entries st) \<noteq> None} \<and>
         (errors = 0 \<longrightarrow> errors' = 0) \<and>
         entries st' = filter (\<lambda>kv. fst kv \<notin> set ps) (entries st) \<and>
         config st' = config st \<and> checkpoints st' = checkpoints st"
  using assms
proof (induction ps arbitrary: removed errors st)
  case Nil
  then show ?case by simp
next
  case (Cons p ps)
  define st1 where "st1 = st\<lparr>entries := filter (\<lambda>kv. fst kv \<noteq> p) (entries st)\<rparr>"
  from Cons.prems(2) have dist: "distinct ps" and notin: "p \<notin> set ps" by simp_all
  have other: "\<And>q. q \<in> set ps \<Longrightarrow> db_get q (entries st1) = db_get q (entries st)"
    using notin db_get_pop[of _ p "entries st"] by (auto simp: st1_def db_pop_def)
  have card_eq: "card {q \<in> set ps. db_get q (entries st1) \<noteq> None} =
                 card {q \<in> set ps. db_get q (entries st) \<noteq> None}"
    using other by (metis (mono_tags, lifting) Collect_cong)
  have filt: "filter (\<lambda>kv. fst kv \<notin> set ps) (entries st1) =
              filter (\<lambda>kv. fst kv \<notin> set (p # ps)) (entries st)"
    unfolding st1_def by (auto intro: filter_cong)
  show ?case
  proof (cases "db_get p (entries st)")
    case None
    with Cons.prems have run: "purge_loop c ps removed 0 st1 = Inr ((removed', errors'), st')"
      by (simp add: db_pop_def st1_def Let_def)
    from Cons.IH[OF run dist]
    have ih: "removed' = removed + card {q \<in> set ps. db_get q (entries st1) \<noteq> None} \<and>
         errors' = 0 \<and>
         entries st' = filter (\<lambda>kv. fst kv \<notin> set ps) (entries st1) \<and>
         config st' = config st1 \<and> checkpoints st' = checkpoints st1"
      by simp
    have "{q \<in> set (p # ps). db_get q (entries st) \<noteq> None} =
          {q \<in> set ps. db_get q (entries st) \<noteq> None}"
      using None by auto
    with ih card_eq filt show ?thesis by (simp add: st1_def)
  next
    case (Some val)
    with Cons.prems obtain st2 where u: "unindex c st1 (new_entry val) = Inr st2"
      and run: "purge_loop c ps (removed + 1) errors st2 = Inr ((removed', errors'), st')"
      by (auto simp: db_pop_def st1_def Let_def split: sum.splits)
    from u have fr: "config st2 = config st1" "entries st2 = entries st1"
      "checkpoints st2 = checkpoints st1"
      using unindex_loop_frame[of c "new_entry val" "indexes (model c)" st1 st2]
      by (simp_all add: unindex_def)
    from Cons.IH[OF run dist]
    have ih: "removed' = removed + 1 + card {q \<in> set ps. db_get q (entries st2) \<noteq> None} \<and>
         (errors = 0 \<longrightarrow> errors' = 0) \<and>
         entries st' = filter (\<lambda>kv. fst kv \<notin> set ps) (entries st2) \<and>
         config st' = config st2 \<and> checkpoints st' = checkpoints st2"
      by simp
    have "{q \<in> set (p # ps). db_get q (entries st) \<noteq> None} =
          insert p {q \<in> set ps. db_get q (entries st) \<noteq> None}"
      using Some by auto
    moreover have "p \<notin> {q \<in> set ps. db_get q (entries st) \<noteq> None}"
      using notin by simp
    ultimately have "card {q \<in> set (p # ps). db_get q (entries st) \<noteq> None} =
          Suc (card {q \<in> set ps. db_get q (entries st) \<noteq> None})"
      by simp
    with ih card_eq filt fr show ?thesis by (simp add: st1_def)
  qed
qed

lemma purge_loop_total:
  assumes "indexes (model c) = []"
  shows "\<exists>removed' errors' st'. purge_loop c ps removed errors st = Inr ((removed', errors'), st')"
  using assms
  by (induction ps arbitrary: removed errors st)
     (auto simp: unindex_def Let_def split: prod.splits option.splits)

lemma purge_unfold:
  assumes "db_keys (checkpoints st) \<noteq> []"
  shows "\<exists>common. fset common = common_acked st \<and>
           purge c st = data c (purge_loop c (sorted_list_of_fset common) 0 0) st"
proof -
  let ?names = "db_keys (checkpoints st)"
  let ?regs = "map (\<lambda>n. db_get n (checkpoints st)) ?names"
  have regs: "purge_registries c ?names st = (Inr ?regs, st)"
    by (rule purge_registries_eq) simp
  have some: "\<forall>r\<in>set ?regs. r \<noteq> None"
    using db_get_keys[of _ "checkpoints st"] by fastforce
  from assms have ne: "?regs \<noteq> []" by simp
  from reduce_and_total[OF ne some] obtain common where c: "reduce_and ?regs = Inr common" by blast
  have "\<And>p. p |\<in>| common \<longleftrightarrow> p \<in> common_acked st"
    unfolding reduce_and_member[OF c] common_acked_def by auto
  then have "fset common = common_acked st" by auto
  moreover have "purge c st = data c (purge_loop c (sorted_list_of_fset common) 0 0) st"
    using regs ne c by (simp add: purge_def list_readers_eq)
  ultimately show ?thesis by blast
qed

text \<open>
  What \<open>purge\<close> does guarantee. With no registered reader it returns (0, 0) and
  changes nothing. Whenever it returns a pair, the second component is 0; with
  registered readers the first component is the number of primary keys in the
  intersection of all stored registries that were stored in entries, and afterwards
  exactly those keys are gone from entries. For a model without indexes it always
  returns. Nothing is said here about the index sub-databases.
\<close>

lemma purge_counts:
  "(db_keys (checkpoints st) = [] \<longrightarrow> purge c st = (Inr (0, 0), st)) \<and>
   (\<forall>removed errors st'. purge c st = (Inr (removed, errors), st') \<longrightarrow>
      errors = 0 \<and>
      (db_keys (checkpoints st) \<noteq> [] \<longrightarrow>
         removed = card {p \<in> common_acked st. db_get p (entries st) \<noteq> None} \<and>
         (\<forall>p. db_get p (entries st') = (if p \<in> common_acked st then None else db_get p (entries st))))) \<and>
   (indexes (model c) = [] \<longrightarrow> (\<exists>removed st'. purge c st = (Inr (removed, 0), st')))"
proof (intro conjI impI allI)
  assume "db_keys (checkpoints st) = []"
  then show "purge c st = (Inr (0, 0), st)"
    by (simp add: purge_def list_readers_eq)
next
  fix removed errors st'
  assume r: "purge c st = (Inr (removed, errors), st')"
  show "errors = 0"
  proof (cases "db_keys (checkpoints st) = []")
    case True
    with r show ?thesis by (simp add: purge_def list_readers_eq)
  next
    case False
    from purge_unfold[OF False, of c] obtain common where
      c: "fset common = common_acked st"
      "purge c st = data c (purge_loop c (sorted_list_of_fset common) 0 0) st" by blast
    with r have "purge_loop c (sorted_list_of_fset common) 0 0 st = Inr ((removed, errors), st')"
      by (auto simp: data_def split: sum.splits)
    from purge_loop_effect[OF this distinct_sorted_list_of_fset] show ?thesis by simp
  qed
next
  fix removed errors st'
  assume r: "purge c st = (Inr (removed, errors), st')" and ne: "db_keys (checkpoints st) \<noteq> []"
  from purge_unfold[OF ne, of c] obtain common where
    c: "fset common = common_acked st"
    "purge c st = data c (purge_loop c (sorted_list_of_fset common) 0 0) st" by blast
  with r have "purge_loop c (sorted_list_of_fset common) 0 0 st = Inr ((removed, errors), st')"
    by (auto simp: data_def split: sum.splits)
  from purge_loop_effect[OF this distinct_sorted_list_of_fset] c(1)
  have eff: "removed = card {p \<in> common_acked st. db_get p (entries st) \<noteq> None}"
    "entries st' = filter (\<lambda>kv. fst kv \<notin> common_acked st) (entries st)"
    by simp_all
  show "removed = card {p \<in> common_acked st. db_get p (entries st) \<noteq> None}" by (rule eff(1))
  fix p
  show "db_get p (entries st') = (if p \<in> common_acked st then None else db_get p (entries st))"
    by (simp add: eff(2) db_get_filter_keys)
next
  assume noidx: "indexes (model c) = []"
  show "\<exists>removed st'. purge c st = (Inr (removed, 0), st')"
  proof (cases "db_keys (checkpoints st) = []")
    case True
    then show ?thesis by (simp add: purge_def list_readers_eq)
  next
    case False
    from purge_unfold[OF False, of c] obtain common where
      c: "purge c st = data c (purge_loop c (sorted_list_of_fset common) 0 0) st" by blast
    from purge_loop_total[OF noidx, of "sorted_list_of_fset common" 0 0 st]
    obtain removed' errors' st' where
      run: "purge_loop c (sorted_list_of_fset common) 0 0 st = Inr ((removed', errors'), st')"
      by blast
    from purge_loop_effect[OF run distinct_sorted_list_of_fset] have "errors' = 0" by simp
    with c run show ?thesis by (simp add: data_def)
  qed
qed

text \<open>
  Two readers that both acknowledged key 0, the second not key 1: \<open>purge\<close> returns
  (1, 0) and only key 1 is still stored.
\<close>

lemma common_of_two_readers: "sorted_list_of_fset {|0::nat|} = [0]"
  by (simp add: sorted_list_of_fset.rep_eq)

lemma purge_two_readers:
  "purge plain_conn two_readers_env = (Inr (1, 0), two_readers_env\<lparr>entries := [(1, test_data)]\<rparr>) \<and>
   (1::nat) = card {p \<in> common_acked two_readers_env. db_get p (entries two_readers_env) \<noteq> None} \<and>
   purge plain_conn empty_env = (Inr (0, 0), empty_env)"
proof -
  have run: "purge plain_conn two_readers_env =
               (Inr (1, 0), two_readers_env\<lparr>entries := [(1, test_data)]\<rparr>)"
    by (simp add: purge_def list_readers_def readers_def reader_def db_keys_def db_get_def
        two_readers_env_def Reader_def common_of_two_readers data_def db_pop_def Let_def
        unindex_def plain_conn_def plain_model_def)
  have ne: "db_keys (checkpoints two_readers_env) \<noteq> []"
    by (simp add: db_keys_def two_readers_env_def)
  have em: "db_keys (checkpoints empty_env) = []"
    by (simp add: db_keys_def empty_env_def)
  have all: "\<forall>removed errors st'. purge plain_conn two_readers_env = (Inr (removed, errors), st') \<longrightarrow>
      errors = 0 \<and>
      (db_keys (checkpoints two_readers_env) \<noteq> [] \<longrightarrow>
         removed = card {p \<in> common_acked two_readers_env. db_get p (entries two_readers_env) \<noteq> None} \<and>
         (\<forall>p. db_get p (entries st') =
            (if p \<in> common_acked two_readers_env then None else db_get p (entries two_readers_env))))"
    by (rule conjunct1[OF conjunct2[OF purge_counts]])
  from all run ne
  have cnt: "(1::nat) = card {p \<in> common_acked two_readers_env. db_get p (entries two_readers_env) \<noteq> None}"
    by blast
  have "purge plain_conn empty_env = (Inr (0, 0), empty_env)"
    using conjunct1[OF purge_counts[of empty_env plain_conn]] em by blast
  with run cnt show ?thesis by blast
qed

text \<open>
  C2. The keys that \<open>purge\<close> counts are deleted from entries but not un-indexed by their
  primary key. \<open>purge\<close> hands \<open>unindex\<close> the entry rebuilt from the stored value, which
  carries no primary key, where \<open>remove\<close> hands it the saved entry. On \<open>indexed_env\<close>
  (one entry with the indexed value \<open>a\<close> at key 0, acknowledged by the only reader) the
  pair (\<open>a\<close>, 0) is therefore never asked for: what becomes of the index is whatever the
  index cursor does when it is given no primary key. If it raises, \<open>purge\<close> raises and
  the transaction is aborted, the entry still stored; if it returns an index, \<open>purge\<close>
  returns (1, 0) with the entry gone and that index in place.
\<close>

theorem purge_unindex_without_pk:
  "pk (new_entry v) = None \<and>
   purge (indexed_conn f) indexed_env =
     (case f (PyStr ''a'') {(PyStr ''a'', 0)} of
        Inl err \<Rightarrow> (Inl err, indexed_env)
      | Inr d \<Rightarrow>
          (Inr (1, 0),
           indexed_env\<lparr>entries := [],
                        index_dbs := (index_dbs indexed_env)(''idx_name'' := d)\<rparr>))"
  by (cases "f (PyStr ''a'') {(PyStr ''a'', 0)}")
     (simp_all add: purge_def list_readers_def readers_def reader_def db_keys_def db_get_def
        indexed_env_def Reader_def common_of_two_readers data_def db_pop_def Let_def
        unindex_def indexed_conn_def new_entry_def entry_get_def get_index_name_def
        idx_delete_def)

text \<open>
  With an index cursor that refuses: \<open>purge\<close> raises and removes nothing. With one that
  finds nothing to delete: \<open>purge\<close> reports one entry removed and the pair (\<open>a\<close>, 0) is
  still in the index, pointing to an entry that is no longer stored.
\<close>

lemma purge_refusing_index:
  "purge named_conn indexed_env = (Inl InvalidValue, indexed_env)"
  by (simp add: purge_def list_readers_def readers_def reader_def db_keys_def db_get_def
        indexed_env_def Reader_def common_of_two_readers data_def db_pop_def Let_def
        unindex_def named_conn_def named_model_def name_index_def new_entry_def entry_get_def
        get_index_name_def idx_delete_def)

lemma purge_lax_index:
  "fst (purge lax_conn indexed_env) = Inr (1, 0) \<and>
   db_get 0 (entries (snd (purge lax_conn indexed_env))) = None \<and>
   (PyStr ''a'', 0) \<in> index_dbs (snd (purge lax_conn indexed_env)) ''idx_name''"
  by (simp add: purge_def list_readers_def readers_def reader_def db_keys_def db_get_def
        indexed_env_def Reader_def common_of_two_readers data_def db_pop_def Let_def
        unindex_def lax_conn_def indexed_conn_def new_entry_def entry_get_def
        get_index_name_def idx_delete_def)

section \<open>Closing\<close>

lemma close_model: "model (close c) = model c"
  by (simp add: close_def)

lemma index_loop_close: "index_loop (close c) e xs st = index_loop c e xs st"
  by (induction xs arbitrary: st)
     (auto simp: get_index_name_def close_model Let_def split: sum.splits)

lemma unindex_loop_close: "unindex_loop (close c) e xs st = unindex_loop c e xs st"
  by (induction xs arbitrary: st)
     (auto simp: get_index_name_def close_model Let_def split: sum.splits)

lemma unindex_close: "unindex (close c) = unindex c"
  by (simp add: unindex_def fun_eq_iff unindex_loop_close close_model)

lemma data_close: "data (close c) body st = data c body st"
  by (simp add: data_def)

lemma reader_close:
  "reader (close c) name st =
     (map_sum id (\<lambda>r. r\<lparr>rconnection := close c\<rparr>) (fst (reader c name st)), snd (reader c name st))"
  by (simp add: reader_def readers_def Reader_def split: option.splits)

lemma reader_exit_close:
  "delta r = {||} \<Longrightarrow> reader_exit (r\<lparr>rconnection := c'\<rparr>) st = reader_exit r st"
  by (simp add: reader_exit_def)

lemma reader_delta: "reader c name st = (Inr r, st') \<Longrightarrow> delta r = {||}"
  by (auto simp: reader_def readers_def Reader_def split: option.splits sum.splits)

lemma remove_body_close: "remove_body (close c) = remove_body c"
  by (auto simp: remove_body_def fun_eq_iff unindex_close Let_def split: option.splits prod.splits)

lemma remove_loop_close: "remove_loop (close c) e names st = remove_loop c e names st"
proof (induction names arbitrary: st)
  case Nil
  then show ?case by (simp add: data_def remove_body_close)
next
  case (Cons n names)
  show ?case
  proof (cases "reader c (Some n) st")
    case (Pair res st1)
    show ?thesis
    proof (cases res)
      case (Inl err)
      with Pair show ?thesis by (simp add: reader_close)
    next
      case (Inr r)
      with Pair have d: "delta r = {||}" using reader_delta by blast
      with Pair Inr Cons show ?thesis
        by (simp add: reader_close reader_exit_close is_acked_def)
    qed
  qed
qed

lemma purge_registries_close:
  "purge_registries (close c) names st = purge_registries c names st"
proof (induction names arbitrary: st)
  case Nil
  then show ?case by simp
next
  case (Cons n names)
  show ?case
  proof (cases "reader c (Some n) st")
    case (Pair res st1)
    with Cons show ?thesis
      by (cases res) (auto simp: reader_close split: prod.splits sum.splits)
  qed
qed

lemma purge_loop_close:
  "purge_loop (close c) ps removed errors st = purge_loop c ps removed errors st"
  by (induction ps arbitrary: removed errors st)
     (auto simp: unindex_close Let_def split: prod.splits option.splits sum.splits)

text \<open>
  C10. \<open>close\<close> sets the \<open>closed\<close> flag and leaves the model, the path and the keyword
  arguments of the connection alone. No operation reads the flag: \<open>create\<close>,
  \<open>bulk_create\<close>, \<open>register_reader\<close>, \<open>save_registry\<close>, \<open>remove\<close> and \<open>purge\<close> give
  the same result and the same stored environment on the closed connection as on the
  open one, and \<open>reader\<close> gives the same reader, bound to the connection it was asked
  on.
\<close>

theorem close_frame:
  "close c = c\<lparr>closed := True\<rparr> \<and>
   model (close c) = model c \<and> path (close c) = path c \<and> kwargs (close c) = kwargs c \<and>
   create (close c) kw st = create c kw st \<and>
   bulk_create (close c) es st = bulk_create c es st \<and>
   reader (close c) name st =
     (map_sum id (\<lambda>r. r\<lparr>rconnection := close c\<rparr>) (fst (reader c name st)), snd (reader c name st)) \<and>
   register_reader (close c) n st = register_reader c n st \<and>
   unregister_reader (close c) n st = unregister_reader c n st \<and>
   list_readers (close c) st = list_readers c st \<and>
   save_registry (close c) n reg st = save_registry c n reg st \<and>
   remove (close c) e st = remove c e st \<and>
   purge (close c) st = purge c st"
proof (intro conjI)
  show "create (close c) kw st = create c kw st"
    by (auto simp: create_def data_def create_body_def index_def index_loop_close close_model Let_def
          split: prod.splits sum.splits)
  show "bulk_create (close c) es st = bulk_create c es st"
    by (simp add: bulk_create_def data_def bulk_create_body_def)
  show "remove (close c) e st = remove c e st"
    by (simp add: remove_def list_readers_def readers_def remove_loop_close)
  show "purge (close c) st = purge c st"
  proof -
    have "purge_loop (close c) = purge_loop c"
      by (simp add: fun_eq_iff purge_loop_close)
    then show ?thesis
      by (auto simp: purge_def list_readers_def readers_def purge_registries_close data_close
            split: prod.splits sum.splits)
  qed
  show "reader (close c) name st =
     (map_sum id (\<lambda>r. r\<lparr>rconnection := close c\<rparr>) (fst (reader c name st)), snd (reader c name st))"
    by (rule reader_close)
qed (simp_all add: close_def register_reader_def unregister_reader_def list_readers_def
      save_registry_def readers_def)

text \<open>Creating an entry on a closed connection works as on the open one.\<close>

theorem close_frame_witness:
  "closed (close plain_conn) \<and> \<not> closed plain_conn \<and>
   create (close plain_conn) test_data empty_env =
     (Inr (saved_entry test_data 0),
      empty_env\<lparr>config := [(''next_event_id'', 1)], entries := [(0, test_data)]\<rparr>)"
proof -
  have run: "create plain_conn test_data empty_env =
      (Inr (saved_entry test_data 0),
       empty_env\<lparr>config := [(''next_event_id'', 1)], entries := [(0, test_data)]\<rparr>)"
    by (simp add: create_def data_def create_body_def Let_def get_next_event_idx_def db_get_def
        empty_env_def entries_put_def key_fits_def db_put_def db_keys_def new_entry_def
        entry_copy_def update_next_event_idx_def index_def plain_conn_def plain_model_def
        saved_entry_def)
  have flags: "closed (close plain_conn) \<and> \<not> closed plain_conn"
    by (simp add: close_def plain_conn_def)
  have "create (close plain_conn) test_data empty_env = create plain_conn test_data empty_env"
    using close_frame[of plain_conn test_data empty_env] by blast
  with run flags show ?thesis by simp
qed

section \<open>The segmented writer\<close>





lemma str_nat_2: "str_nat (Suc (Suc 0)) = ''2''"
  by (simp add: str_nat.simps digit_char_def numeral_2_eq_2[symmetric])





section \<open>Deleting a segment\<close>

text \<open>
  C9. Deleting a segment number that the logindex does not hold fails with not-found.
  Deleting segment \<open>n\<close> fails with in-use when the writer is open on it or the progress
  pointer of a registered reader lies in it; otherwise the segment file and the logindex
  entry of \<open>n\<close> are removed and nothing else changes.
\<close>

theorem delete_segment:
  "(db_get n (logindex w) = None \<longrightarrow> delete w n = Inl NotFound) \<and>
   (\<forall>name. db_get n (logindex w) = Some name \<longrightarrow>
      (if current_log w = Some name \<or> list_ex (\<lambda>(r, seg, idx). seg = n) (pointers w)
       then delete w n = Inl InUse
       else (\<exists>w'. delete w n = Inr w' \<and> files w' name = None \<and> db_get n (logindex w') = None \<and>
               (\<forall>k. k \<noteq> n \<longrightarrow> db_get k (logindex w') = db_get k (logindex w)) \<and>
               (\<forall>f. f \<noteq> name \<longrightarrow> files w' f = files w f) \<and>
               current_log w' = current_log w \<and> pointers w' = pointers w)))"
  by (auto simp: delete_def db_get_pop)

text \<open>
  On \<open>three_segments\<close>: segment 4 does not exist, the writer is open on segment 3, a
  reader's pointer is in segment 2, and segment 1 can be deleted.
\<close>

theorem delete_segment_witness:
  "delete three_segments 4 = Inl NotFound \<and>
   delete three_segments 3 = Inl InUse \<and>
   delete three_segments 2 = Inl InUse \<and>
   (\<exists>w'. delete three_segments 1 = Inr w' \<and> files w' ''log.1'' = None \<and>
          db_get 1 (logindex w') = None \<and> files w' ''log.2'' = Some [20])"
proof -
  have l: "db_get 4 (logindex three_segments) = None"
    "db_get 3 (logindex three_segments) = Some ''log.3''"
    "db_get 2 (logindex three_segments) = Some ''log.2''"
    "db_get 1 (logindex three_segments) = Some ''log.1''"
    by (simp_all add: db_get_def three_segments_def)
  have s: "current_log three_segments = Some ''log.3''"
    "pointers three_segments = [(''test'', 2, 1)]"
    "files three_segments ''log.2'' = Some [20]"
    by (simp_all add: three_segments_def)
  have d4: "delete three_segments 4 = Inl NotFound"
    using delete_segment[of 4 three_segments] l by blast
  have d3: "delete three_segments 3 = Inl InUse"
    using delete_segment[of 3 three_segments] l s by simp
  have d2: "delete three_segments 2 = Inl InUse"
    using delete_segment[of 2 three_segments] l s by simp
  have d1: "\<exists>w'. delete three_segments 1 = Inr w' \<and> files w' ''log.1'' = None \<and>
          db_get 1 (logindex w') = None \<and> files w' ''log.2'' = Some [20]"
    using delete_segment[of 1 three_segments] l s by auto
  from d4 d3 d2 d1 show ?thesis by blast
qed

text \<open>
  The run of \<^verbatim>\<open>test_Writer_delete_unused_db\<close>: with capacity 1, two appends leave two
  segments, the writer open on the second, and segment 1 can then be deleted.
\<close>

lemma delete_unused_db:
  "(case appends (Writer ''log'' 1) [10, 20 :: nat] of
      Inl err \<Rightarrow> False
    | Inr w \<Rightarrow> files w ''log.1'' = Some [10] \<and> files w ''log.2'' = Some [20] \<and>
        (case delete w 1 of
           Inl err \<Rightarrow> False
         | Inr w' \<Rightarrow> files w' ''log.1'' = None \<and> files w' ''log.2'' = Some [20]) \<and>
        delete w 2 = Inl InUse)"
  by (simp add: append_log_def Writer_def set_current_log_def cursor_last_def recno_append_def
        log_open_def Let_def str_nat_2 delete_def db_get_def db_pop_def)

end
